theory Spec2Isabelle
  imports Complex_Main
begin

section \<open>AsciiFluid: the metaball ASCII field animator\<close>

text \<open>
  The embedding follows \<^verbatim>\<open>src/components/AsciiFluid.tsx\<close>: the body of the
  \<^verbatim>\<open>useEffect\<close> callback (the closure variables \<^verbatim>\<open>time\<close>, \<^verbatim>\<open>blobs\<close>,
  \<^verbatim>\<open>buffer\<close>), the per-frame callback \<^verbatim>\<open>renderFrame\<close> and the cleanup function
  the effect returns.

  Numbers: a JavaScript number is an IEEE-754 double. The model takes them as
  \<^typ>\<open>real\<close>, so every statement below is about the arithmetic the code writes
  down, evaluated exactly; rounding is outside the model. Loop counters and array indices
  are \<^typ>\<open>nat\<close>, the result of \<^verbatim>\<open>Math.floor\<close> is an \<^typ>\<open>int\<close>.
\<close>

subsection \<open>Constants of the effect\<close>

definition width :: nat where
  "width = 160"

definition height :: nat where
  "height = 56"

text \<open>The glyph ramp, ordered from empty to solid: seven blanks, then twelve marks.\<close>

definition chars :: string where
  "chars = ''       .,-~:;=!*#$@''"

definition numBlobs :: nat where
  "numBlobs = 18"

subsection \<open>Blobs\<close>

text \<open>
  The fields of a blob object. The source calls the position fields \<^verbatim>\<open>x\<close> and
  \<^verbatim>\<open>y\<close>; they are \<open>blob_x\<close> and \<open>blob_y\<close> here, the other fields keep their names.
\<close>

record blob =
  blob_x :: real
  blob_y :: real
  kx :: real
  ky :: real
  speed :: real
  offset :: real
  radius :: real

text \<open>
  \<^verbatim>\<open>Array.from({length: numBlobs}, (_, i) => ({...}))\<close>: the object literal calls
  \<^verbatim>\<open>Math.random()\<close> five times per blob, in the order of its fields. The sequence of
  values the calls return is the parameter \<open>rnd\<close>.
\<close>

definition mk_blob :: "(nat \<Rightarrow> real) \<Rightarrow> nat \<Rightarrow> blob" where
  "mk_blob rnd i =
     \<lparr> blob_x = real width / 2,
       blob_y = real height / 2,
       kx = (rnd (5 * i) - 0.5) * 2,
       ky = (rnd (5 * i + 1) - 0.5) * 2,
       speed = 0.2 + rnd (5 * i + 2) * 0.4,
       offset = rnd (5 * i + 3) * 100,
       radius = 5 + rnd (5 * i + 4) * 8 \<rparr>"

text \<open>The body of \<^verbatim>\<open>blobs.forEach(b => ...)\<close>: three assignments, in order.\<close>

definition update_blob :: "real \<Rightarrow> blob \<Rightarrow> blob" where
  "update_blob t b =
     (let b1 = b\<lparr> blob_x := (real width / 2)
                   + sin (t * speed b + offset b) * (real width * 0.35)
                   + cos (t * 0.2 * speed b) * 15 \<rparr>;
          b2 = b1\<lparr> blob_y := (real height / 2)
                   + cos (t * speed b1 * 0.8 + offset b1) * (real height * 0.35)
                   + sin (t * 0.3 * speed b1) * 8 \<rparr>;
          b3 = b2\<lparr> radius := 9 + sin (t * 3 + offset b2) * 3 \<rparr>
      in b3)"

subsection \<open>Field evaluation and glyph mapping\<close>

text \<open>One round of \<^verbatim>\<open>for (let b of blobs)\<close>: the summand added to \<^verbatim>\<open>sumField\<close>.\<close>

definition contribution :: "blob \<Rightarrow> nat \<Rightarrow> nat \<Rightarrow> real" where
  "contribution b cx cy =
     (let dx = real cx - blob_x b;
          dy = (real cy - blob_y b) * 2.2;
          rSq = radius b * radius b;
          distSq = dx * dx + dy * dy
      in (rSq * 2.5) / (distSq + 8))"

definition sumField :: "blob list \<Rightarrow> nat \<Rightarrow> nat \<Rightarrow> real" where
  "sumField bs cx cy = foldl (\<lambda>acc b. acc + contribution b cx cy) 0 bs"

text \<open>\<^verbatim>\<open>norm\<close> of the source, with its two clamping statements in order.\<close>

definition norm_val :: "real \<Rightarrow> real" where
  "norm_val val =
     (let n0 = (val - 0.95) * 0.7;
          n1 = (if n0 < 0 then 0 else n0);
          n2 = (if n1 > 1 then 1 else n1)
      in n2)"

definition charIdx :: "real \<Rightarrow> int" where
  "charIdx val = \<lfloor>norm_val val * (real (length chars) - 1)\<rfloor>"

text \<open>
  \<^verbatim>\<open>chars[charIdx]\<close>: indexing a string out of range gives \<^verbatim>\<open>undefined\<close>,
  which is \<open>None\<close>.
\<close>

definition char_at :: "string \<Rightarrow> int \<Rightarrow> char option" where
  "char_at s i = (if 0 \<le> i \<and> i < int (length s) then Some (s ! nat i) else None)"

subsection \<open>The frame buffer\<close>

text \<open>
  \<^verbatim>\<open>new Array(width * height)\<close> is an array of that length whose slots read as
  \<^verbatim>\<open>undefined\<close>. A read out of range gives \<^verbatim>\<open>undefined\<close>; a write out of
  range extends the array.
\<close>

definition js_get :: "'a option list \<Rightarrow> nat \<Rightarrow> 'a option" where
  "js_get xs i = (if i < length xs then xs ! i else None)"

definition js_set :: "'a option list \<Rightarrow> nat \<Rightarrow> 'a option \<Rightarrow> 'a option list" where
  "js_set xs i v =
     (if i < length xs then xs[i := v]
      else xs @ replicate (i - length xs) None @ [v])"

subsection \<open>The host and the state of the effect\<close>

text \<open>
  The host's list of animation frame callbacks. The component registers one callback
  only, \<^verbatim>\<open>renderFrame\<close>, so an entry is the handle the host gave out for it.
  \<^verbatim>\<open>requestAnimationFrame\<close> appends an entry under a fresh handle and returns the
  handle; \<^verbatim>\<open>cancelAnimationFrame\<close> removes the entry of a handle, and does nothing
  for a handle that has no entry (one that has already run).
\<close>

record host =
  callbacks :: "nat list"
  next_handle :: nat

definition requestAnimationFrame :: "host \<Rightarrow> nat \<times> host" where
  "requestAnimationFrame h =
     (next_handle h,
      h\<lparr> callbacks := callbacks h @ [next_handle h], next_handle := next_handle h + 1 \<rparr>)"

definition cancelAnimationFrame :: "nat \<Rightarrow> host \<Rightarrow> host" where
  "cancelAnimationFrame i h = h\<lparr> callbacks := removeAll i (callbacks h) \<rparr>"

text \<open>
  The variables the effect's closures share, the element behind \<^verbatim>\<open>preRef.current\<close>
  (\<open>None\<close> is \<^verbatim>\<open>null\<close>, \<open>Some t\<close> an element whose \<^verbatim>\<open>innerText\<close> was last
  set to \<open>t\<close>), the host, and two counters that record every assignment to a slot of
  \<^verbatim>\<open>buffer\<close> and every assignment to \<^verbatim>\<open>innerText\<close>.
\<close>

record anim =
  time :: real
  blobs :: "blob list"
  buffer :: "char option list"
  animationId :: nat
  preRef :: "string option"
  hst :: host
  buffer_writes :: nat
  target_writes :: nat

subsection \<open>renderFrame\<close>

text \<open>The body of the inner loop over \<^verbatim>\<open>x\<close>: one cell, one write to the buffer.\<close>

definition cell_step :: "nat \<Rightarrow> nat \<Rightarrow> anim \<Rightarrow> anim" where
  "cell_step cx cy s =
     (let val = sumField (blobs s) cx cy;
          idx = cx + cy * width
      in s\<lparr> buffer := js_set (buffer s) idx (char_at chars (charIdx val)),
            buffer_writes := buffer_writes s + 1 \<rparr>)"

definition row_loop :: "nat \<Rightarrow> anim \<Rightarrow> anim" where
  "row_loop cy s = foldl (\<lambda>s cx. cell_step cx cy s) s [0..<width]"

definition grid_loop :: "anim \<Rightarrow> anim" where
  "grid_loop s = foldl (\<lambda>s cy. row_loop cy s) s [0..<height]"

text \<open>
  \<^verbatim>\<open>output += buffer[x + y * width]\<close>: a glyph is appended as it is, and
  \<^verbatim>\<open>undefined\<close> as the nine letters of its name.
\<close>

definition cell_text :: "char option \<Rightarrow> string" where
  "cell_text c = (case c of None \<Rightarrow> ''undefined'' | Some g \<Rightarrow> [g])"

definition newline :: char where
  "newline = CHR 0x0A"

definition serialize_row :: "char option list \<Rightarrow> nat \<Rightarrow> string \<Rightarrow> string" where
  "serialize_row buf cy out =
     foldl (\<lambda>out cx. out @ cell_text (js_get buf (cx + cy * width))) out [0..<width]"

definition serialize :: "char option list \<Rightarrow> string" where
  "serialize buf = foldl (\<lambda>out cy. serialize_row buf cy out @ [newline]) [] [0..<height]"

definition renderFrame :: "anim \<Rightarrow> anim" where
  "renderFrame s0 =
     (let s1 = s0\<lparr> time := time s0 + 0.005 \<rparr>;
          s2 = s1\<lparr> blobs := map (update_blob (time s1)) (blobs s1) \<rparr>;
          s3 = grid_loop s2;
          s4 = (case preRef s3 of
                  None \<Rightarrow> s3
                | Some _ \<Rightarrow> s3\<lparr> preRef := Some (serialize (buffer s3)),
                                 target_writes := target_writes s3 + 1 \<rparr>)
      in s4\<lparr> hst := snd (requestAnimationFrame (hst s4)) \<rparr>)"

subsection \<open>The effect, its cleanup, and the host's frames\<close>

text \<open>
  \<open>start\<close> is the body of the effect: it runs once, with the values \<open>rnd\<close> of the calls
  of \<^verbatim>\<open>Math.random()\<close>, the element \<open>el\<close> the ref holds and the next handle \<open>k\<close>
  of the host (the host's list holds the entries of this component only).
  \<open>stop\<close> is the function the effect returns.
\<close>

definition start :: "(nat \<Rightarrow> real) \<Rightarrow> string option \<Rightarrow> nat \<Rightarrow> anim" where
  "start rnd el k =
     (let r = requestAnimationFrame \<lparr> callbacks = [], next_handle = k \<rparr>
      in \<lparr> time = 0,
            blobs = map (mk_blob rnd) [0..<numBlobs],
            buffer = replicate (width * height) None,
            animationId = fst r,
            preRef = el,
            hst = snd r,
            buffer_writes = 0,
            target_writes = 0 \<rparr>)"

definition stop :: "anim \<Rightarrow> anim" where
  "stop s = s\<lparr> hst := cancelAnimationFrame (animationId s) (hst s) \<rparr>"

text \<open>
  A frame of the host: the callbacks registered so far are taken off the list and run
  in order; what they register is for the next frame.
\<close>

definition run_frame :: "anim \<Rightarrow> anim" where
  "run_frame s =
     foldl (\<lambda>s i. renderFrame s) (s\<lparr> hst := (hst s)\<lparr> callbacks := [] \<rparr> \<rparr>) (callbacks (hst s))"

text \<open>
  What can happen after \<open>start\<close>: the host presents a frame, the cleanup runs, or the
  element is taken from the ref (\<^verbatim>\<open>preRef.current\<close> becomes \<^verbatim>\<open>null\<close>).
\<close>

datatype event = Frame | Stop | Detach

fun step :: "event \<Rightarrow> anim \<Rightarrow> anim" where
  "step Frame s = run_frame s"
| "step Stop s = stop s"
| "step Detach s = s\<lparr> preRef := None \<rparr>"

fun run :: "event list \<Rightarrow> anim \<Rightarrow> anim" where
  "run [] s = s"
| "run (e # es) s = run es (step e s)"

text \<open>The frames \<open>n\<close> ticks in a row present: the element's text after each tick.\<close>

fun frames :: "nat \<Rightarrow> anim \<Rightarrow> string option list" where
  "frames 0 s = []"
| "frames (Suc n) s = preRef (renderFrame s) # frames n (renderFrame s)"

subsection \<open>Notions the statements use\<close>

text \<open>The glyph of the cell \<open>(cx, cy)\<close> for a list of blobs, and the text of a whole frame.\<close>

definition glyph :: "blob list \<Rightarrow> nat \<Rightarrow> nat \<Rightarrow> char" where
  "glyph bs cx cy = chars ! nat (charIdx (sumField bs cx cy))"

definition frame_text :: "blob list \<Rightarrow> string" where
  "frame_text bs =
     concat (map (\<lambda>cy. map (\<lambda>cx. glyph bs cx cy) [0..<width] @ [newline]) [0..<height])"

definition line_breaks :: "string \<Rightarrow> nat" where
  "line_breaks out = length (filter (\<lambda>c. c = newline) out)"

definition glyph_count :: "string \<Rightarrow> nat" where
  "glyph_count out = length (filter (\<lambda>c. c \<noteq> newline) out)"

text \<open>The blob of the specification's scenario: radius 10, at the cell (80, 28).\<close>

definition scenario_blob :: "real \<Rightarrow> real \<Rightarrow> real \<Rightarrow> real \<Rightarrow> blob" where
  "scenario_blob a b c d =
     \<lparr> blob_x = 80, blob_y = 28, kx = a, ky = b, speed = c, offset = d, radius = 10 \<rparr>"

text \<open>
  Concrete states: the effect started with every random draw equal to one half, on an
  attached element and a host whose next handle is 1; and a second state with the same
  clock, speeds and offsets whose other components differ.
\<close>

definition demo_rnd :: "nat \<Rightarrow> real" where
  "demo_rnd n = 1 / 2"

definition demo :: anim where
  "demo = start demo_rnd (Some []) 1"

definition demo2 :: anim where
  "demo2 = demo\<lparr> blobs := map (\<lambda>b. b\<lparr> blob_x := 0, blob_y := 0, kx := 0, ky := 0, radius := 7 \<rparr>)
                            (blobs demo),
                 buffer := [],
                 preRef := Some ''old'' \<rparr>"

subsection \<open>Theorems about the field\<close>

lemma contribution_nonneg: "0 \<le> contribution b cx cy"
  by (simp add: contribution_def Let_def add_nonneg_nonneg)

lemma contribution_denominator_pos:
  "0 < (real cx - blob_x b) * (real cx - blob_x b)
        + ((real cy - blob_y b) * 2.2) * ((real cy - blob_y b) * 2.2) + 8"
  by (simp add: add_nonneg_pos)

lemma foldl_contribution_nonneg:
  "0 \<le> acc \<Longrightarrow> 0 \<le> foldl (\<lambda>acc b. acc + contribution b cx cy) acc bs"
  by (induction bs arbitrary: acc) (simp_all add: contribution_nonneg)

text \<open>
  Claim C9. At every grid cell and for every list of blobs (so on every tick), the field
  sum is greater than or equal to zero: each kernel term is a non-negative numerator
  over a positive denominator.
\<close>

theorem sumField_nonneg:
  "0 \<le> sumField bs cx cy \<and>
   0 \<le> contribution b cx cy \<and>
   contribution b cx cy =
     (radius b * radius b * 2.5) /
     ((real cx - blob_x b) * (real cx - blob_x b)
        + ((real cy - blob_y b) * 2.2) * ((real cy - blob_y b) * 2.2) + 8) \<and>
   0 \<le> radius b * radius b * 2.5 \<and>
   0 < (real cx - blob_x b) * (real cx - blob_x b)
        + ((real cy - blob_y b) * 2.2) * ((real cy - blob_y b) * 2.2) + 8"
proof -
  have "contribution b cx cy =
     (radius b * radius b * 2.5) /
     ((real cx - blob_x b) * (real cx - blob_x b)
        + ((real cy - blob_y b) * 2.2) * ((real cy - blob_y b) * 2.2) + 8)"
    by (simp add: contribution_def Let_def)
  moreover have "0 \<le> radius b * radius b * 2.5" by simp
  moreover have "0 \<le> sumField bs cx cy"
    by (simp add: sumField_def foldl_contribution_nonneg)
  ultimately show ?thesis
    using contribution_nonneg [of b cx cy] contribution_denominator_pos [of cx b cy] by blast
qed

subsection \<open>The glyph ramp\<close>

lemma length_chars: "length chars = 19"
  by (simp add: chars_def)

lemma norm_val_bounds: "0 \<le> norm_val v \<and> norm_val v \<le> 1"
  by (simp add: norm_val_def Let_def)

lemma charIdx_bounds: "0 \<le> charIdx v \<and> charIdx v \<le> 18"
proof -
  have n: "0 \<le> norm_val v" "norm_val v \<le> 1"
    using norm_val_bounds by simp_all
  have "0 \<le> norm_val v * 18" using n by simp
  moreover have "norm_val v * 18 \<le> 18" using n by simp
  ultimately show ?thesis
    by (simp add: charIdx_def length_chars le_floor_iff floor_le_iff)
qed

lemma char_at_charIdx: "char_at chars (charIdx v) = Some (chars ! nat (charIdx v))"
  using charIdx_bounds [of v] by (simp add: char_at_def length_chars)

lemma glyph_in_chars: "chars ! nat (charIdx v) \<in> set chars"
proof -
  have "nat (charIdx v) < length chars"
    using charIdx_bounds [of v] unfolding length_chars by arith
  then show ?thesis by (rule nth_mem)
qed

lemma js_get_js_set: "js_get (js_set xs i v) j = (if j = i then v else js_get xs j)"
  by (auto simp: js_get_def js_set_def nth_append nth_list_update)

lemma cell_step_simps:
  "time (cell_step cx cy s) = time s"
  "blobs (cell_step cx cy s) = blobs s"
  "animationId (cell_step cx cy s) = animationId s"
  "preRef (cell_step cx cy s) = preRef s"
  "hst (cell_step cx cy s) = hst s"
  "target_writes (cell_step cx cy s) = target_writes s"
  "buffer_writes (cell_step cx cy s) = buffer_writes s + 1"
  by (simp_all add: cell_step_def Let_def)

lemma cell_step_buffer:
  "js_get (buffer (cell_step cx cy s)) j =
     (if j = cx + cy * width then Some (glyph (blobs s) cx cy) else js_get (buffer s) j)"
  by (simp add: cell_step_def Let_def js_get_js_set char_at_charIdx glyph_def)

lemma cells_frame:
  "time (foldl (\<lambda>s cx. cell_step cx cy s) s xs) = time s \<and>
   blobs (foldl (\<lambda>s cx. cell_step cx cy s) s xs) = blobs s \<and>
   animationId (foldl (\<lambda>s cx. cell_step cx cy s) s xs) = animationId s \<and>
   preRef (foldl (\<lambda>s cx. cell_step cx cy s) s xs) = preRef s \<and>
   hst (foldl (\<lambda>s cx. cell_step cx cy s) s xs) = hst s \<and>
   target_writes (foldl (\<lambda>s cx. cell_step cx cy s) s xs) = target_writes s \<and>
   buffer_writes (foldl (\<lambda>s cx. cell_step cx cy s) s xs) = buffer_writes s + length xs"
  by (induction xs arbitrary: s) (simp_all add: cell_step_simps)

lemma cells_buffer:
  "js_get (buffer (foldl (\<lambda>s cx. cell_step cx cy s) s xs)) j =
     (if j \<in> (\<lambda>cx. cx + cy * width) ` set xs then Some (glyph (blobs s) (j - cy * width) cy)
      else js_get (buffer s) j)"
proof (induction xs arbitrary: s)
  case Nil
  show ?case by simp
next
  case (Cons x xs)
  show ?case
    by (auto simp: Cons.IH cell_step_buffer cell_step_simps)
qed

lemma row_loop_frame:
  "time (row_loop cy s) = time s \<and>
   blobs (row_loop cy s) = blobs s \<and>
   animationId (row_loop cy s) = animationId s \<and>
   preRef (row_loop cy s) = preRef s \<and>
   hst (row_loop cy s) = hst s \<and>
   target_writes (row_loop cy s) = target_writes s \<and>
   buffer_writes (row_loop cy s) = buffer_writes s + width"
  unfolding row_loop_def using cells_frame [of cy s "[0..<width]"] by simp

lemma row_loop_buffer:
  "js_get (buffer (row_loop cy s)) j =
     (if cy * width \<le> j \<and> j < cy * width + width then Some (glyph (blobs s) (j - cy * width) cy)
      else js_get (buffer s) j)"
proof -
  have "(j \<in> (\<lambda>cx. cx + cy * width) ` set [0..<width]) = (cy * width \<le> j \<and> j < cy * width + width)"
  proof
    assume "j \<in> (\<lambda>cx. cx + cy * width) ` set [0..<width]"
    then show "cy * width \<le> j \<and> j < cy * width + width" by auto
  next
    assume a: "cy * width \<le> j \<and> j < cy * width + width"
    then have "j - cy * width \<in> set [0..<width]" by auto
    moreover have "j = (j - cy * width) + cy * width" using a by simp
    ultimately show "j \<in> (\<lambda>cx. cx + cy * width) ` set [0..<width]" by (rule rev_image_eqI)
  qed
  then show ?thesis unfolding row_loop_def by (simp add: cells_buffer)
qed

lemma rows_frame:
  "time (foldl (\<lambda>s cy. row_loop cy s) s ys) = time s \<and>
   blobs (foldl (\<lambda>s cy. row_loop cy s) s ys) = blobs s \<and>
   animationId (foldl (\<lambda>s cy. row_loop cy s) s ys) = animationId s \<and>
   preRef (foldl (\<lambda>s cy. row_loop cy s) s ys) = preRef s \<and>
   hst (foldl (\<lambda>s cy. row_loop cy s) s ys) = hst s \<and>
   target_writes (foldl (\<lambda>s cy. row_loop cy s) s ys) = target_writes s \<and>
   buffer_writes (foldl (\<lambda>s cy. row_loop cy s) s ys) = buffer_writes s + length ys * width"
  by (induction ys arbitrary: s) (simp_all add: row_loop_frame)

lemma rows_buffer:
  "js_get (buffer (foldl (\<lambda>s cy. row_loop cy s) s [0..<n])) j =
     (if j < n * width then Some (glyph (blobs s) (j mod width) (j div width))
      else js_get (buffer s) j)"
proof (induction n)
  case 0
  show ?case by simp
next
  case (Suc n)
  have w: "0 < width" by (simp add: width_def)
  have b: "blobs (foldl (\<lambda>s cy. row_loop cy s) s [0..<n]) = blobs s"
    using rows_frame by blast
  show ?case
  proof (cases "n * width \<le> j \<and> j < n * width + width")
    case True
    then have "j div width = n"
      using w by (metis div_nat_eqI mult.commute mult_Suc_right add.commute)
    moreover have "j mod width = j - n * width"
      using \<open>j div width = n\<close> by (metis minus_mult_div_eq_mod mult.commute)
    ultimately show ?thesis using True
      by (simp add: row_loop_buffer b)
  next
    case False
    then show ?thesis
      by (auto simp: row_loop_buffer Suc.IH)
  qed
qed

lemma grid_loop_frame:
  "time (grid_loop s) = time s \<and>
   blobs (grid_loop s) = blobs s \<and>
   animationId (grid_loop s) = animationId s \<and>
   preRef (grid_loop s) = preRef s \<and>
   hst (grid_loop s) = hst s \<and>
   target_writes (grid_loop s) = target_writes s \<and>
   buffer_writes (grid_loop s) = buffer_writes s + width * height"
  unfolding grid_loop_def using rows_frame [of s "[0..<height]"] by (simp add: mult.commute)

lemma grid_loop_buffer:
  "js_get (buffer (grid_loop s)) j =
     (if j < width * height then Some (glyph (blobs s) (j mod width) (j div width))
      else js_get (buffer s) j)"
  unfolding grid_loop_def by (simp add: rows_buffer mult.commute)

subsection \<open>Serialisation and renderFrame\<close>

lemma foldl_append_concat: "foldl (\<lambda>out x. out @ f x) out xs = out @ concat (map f xs)"
  by (induction xs arbitrary: out) simp_all

lemma foldl_rows_concat: "foldl (\<lambda>out x. (out @ f x) @ g) out xs = out @ concat (map (\<lambda>x. f x @ g) xs)"
  by (induction xs arbitrary: out) simp_all

lemma serialize_row_eq:
  "serialize_row buf cy out = out @ concat (map (\<lambda>cx. cell_text (js_get buf (cx + cy * width))) [0..<width])"
  unfolding serialize_row_def by (rule foldl_append_concat)

lemma serialize_eq:
  "serialize buf =
     concat (map (\<lambda>cy. concat (map (\<lambda>cx. cell_text (js_get buf (cx + cy * width))) [0..<width]) @ [newline])
               [0..<height])"
  unfolding serialize_def serialize_row_eq
  using foldl_rows_concat [of _ "[newline]" "[]" "[0..<height]"] by simp

lemma cell_index: "cx < width \<Longrightarrow> cy < height \<Longrightarrow> cx + cy * width < width * height"
proof -
  assume a: "cx < width" "cy < height"
  have "cx + cy * width < width + cy * width" using a by simp
  also have "\<dots> = Suc cy * width" by simp
  also have "\<dots> \<le> height * width" using a by (intro mult_le_mono1) simp
  finally show ?thesis by (simp add: mult.commute)
qed

lemma serialize_grid_loop: "serialize (buffer (grid_loop s)) = frame_text (blobs s)"
proof -
  have cell: "cell_text (js_get (buffer (grid_loop s)) (cx + cy * width)) = [glyph (blobs s) cx cy]"
    if "cx < width" "cy < height" for cx cy
    using that cell_index [OF that] by (simp add: grid_loop_buffer cell_text_def)
  have row: "concat (map (\<lambda>cx. cell_text (js_get (buffer (grid_loop s)) (cx + cy * width))) [0..<width])
             = map (\<lambda>cx. glyph (blobs s) cx cy) [0..<width]"
    if "cy < height" for cy
  proof -
    have "map (\<lambda>cx. cell_text (js_get (buffer (grid_loop s)) (cx + cy * width))) [0..<width]
          = map (\<lambda>cx. [glyph (blobs s) cx cy]) [0..<width]"
      using that by (intro map_cong) (simp_all add: cell)
    then show ?thesis by (simp only: concat_map_singleton)
  qed
  show ?thesis
    unfolding serialize_eq frame_text_def
    by (intro arg_cong [where f = concat] map_cong) (simp_all add: row)
qed

lemma glyph_mem_chars: "glyph bs cx cy \<in> set chars"
  by (simp add: glyph_def glyph_in_chars)

lemma newline_notin_chars: "newline \<notin> set chars"
  by (simp add: newline_def chars_def)

lemma glyph_not_newline: "glyph bs cx cy \<noteq> newline"
  using glyph_mem_chars newline_notin_chars by metis

lemma length_concat_const: "(\<And>x. x \<in> set xs \<Longrightarrow> length (f x) = k) \<Longrightarrow> length (concat (map f xs)) = length xs * k"
  by (induction xs) simp_all

lemma filter_concat_map: "filter P (concat (map f xs)) = concat (map (\<lambda>x. filter P (f x)) xs)"
  by (induction xs) simp_all

lemma row_breaks: "filter (\<lambda>c. c = newline) (map (\<lambda>cx. glyph bs cx cy) xs @ [newline]) = [newline]"
  by (induction xs) (simp_all add: glyph_not_newline)

lemma row_glyphs: "filter (\<lambda>c. c \<noteq> newline) (map (\<lambda>cx. glyph bs cx cy) xs @ [newline]) = map (\<lambda>cx. glyph bs cx cy) xs"
  by (induction xs) (simp_all add: glyph_not_newline)

lemma line_breaks_frame_text: "line_breaks (frame_text bs) = height"
  unfolding line_breaks_def frame_text_def filter_concat_map row_breaks
  by (simp add: length_concat_const)

lemma glyph_count_frame_text: "glyph_count (frame_text bs) = width * height"
  unfolding glyph_count_def frame_text_def filter_concat_map row_glyphs
  by (simp add: length_concat_const mult.commute)

lemma length_frame_text: "length (frame_text bs) = width * height + height"
  unfolding frame_text_def
  by (simp add: length_concat_const mult.commute)

lemma set_frame_text: "set (frame_text bs) \<subseteq> insert newline (set chars)"
  unfolding frame_text_def by (auto simp: glyph_mem_chars)

lemma renderFrame_fields:
  "time (renderFrame s) = time s + 0.005"
  "blobs (renderFrame s) = map (update_blob (time s + 0.005)) (blobs s)"
  "animationId (renderFrame s) = animationId s"
  "hst (renderFrame s) = snd (requestAnimationFrame (hst s))"
  "buffer_writes (renderFrame s) = buffer_writes s + width * height"
  "target_writes (renderFrame s) = (if preRef s = None then target_writes s else target_writes s + 1)"
  "preRef (renderFrame s) =
     (if preRef s = None then None
      else Some (frame_text (map (update_blob (time s + 0.005)) (blobs s))))"
  by (simp_all add: renderFrame_def Let_def grid_loop_frame serialize_grid_loop split: option.split)

lemma renderFrame_buffer:
  "js_get (buffer (renderFrame s)) j =
     (if j < width * height
      then Some (glyph (map (update_blob (time s + 0.005)) (blobs s)) (j mod width) (j div width))
      else js_get (buffer s) j)"
  by (simp add: renderFrame_def Let_def grid_loop_frame grid_loop_buffer split: option.split)

subsection \<open>The scenario and the monotone mapping\<close>

lemma norm_val_mono: "a \<le> b \<Longrightarrow> norm_val a \<le> norm_val b"
  by (simp add: norm_val_def Let_def)

lemma charIdx_mono: "a \<le> b \<Longrightarrow> charIdx a \<le> charIdx b"
  unfolding charIdx_def
  by (intro floor_mono mult_right_mono norm_val_mono) (simp_all add: length_chars)

lemma scenario_centre: "sumField [scenario_blob a b c d] 80 28 = 31.25"
  by (simp add: sumField_def contribution_def scenario_blob_def)

lemma scenario_far: "sumField [scenario_blob a b c d] 110 28 = 250 / 908"
  by (simp add: sumField_def contribution_def scenario_blob_def)

text \<open>
  Claim C3. The specification's scenario: one blob of radius 10 at the cell (80, 28).
  At the cell (80, 28) the field sum is \<open>(100 \<cdot> 2.5) / (0 + 0 + 8) = 31.25\<close>, the
  normalised value is 1 and the glyph index is the last of the ramp (the solid glyph).
  At the cell (110, 28) the field sum is \<open>250 / 908\<close>, about 0.275 and below 0.95, the
  normalised value is 0 and the glyph index is 0 (the blank glyph).
\<close>

theorem scenario_single_blob:
  "sumField [scenario_blob a b c d] 80 28 = (100 * 2.5) / (0 + 0 + 8) \<and>
   sumField [scenario_blob a b c d] 80 28 = 31.25 \<and>
   norm_val (sumField [scenario_blob a b c d] 80 28) = 1 \<and>
   charIdx (sumField [scenario_blob a b c d] 80 28) = int (length chars) - 1 \<and>
   char_at chars (charIdx (sumField [scenario_blob a b c d] 80 28)) = Some (CHR ''@'') \<and>
   sumField [scenario_blob a b c d] 110 28 = 250 / (900 + 8) \<and>
   0.275 < sumField [scenario_blob a b c d] 110 28 \<and>
   sumField [scenario_blob a b c d] 110 28 < 0.276 \<and>
   sumField [scenario_blob a b c d] 110 28 < 0.95 \<and>
   norm_val (sumField [scenario_blob a b c d] 110 28) = 0 \<and>
   charIdx (sumField [scenario_blob a b c d] 110 28) = 0 \<and>
   char_at chars (charIdx (sumField [scenario_blob a b c d] 110 28)) = Some (CHR '' '')"
  unfolding scenario_centre scenario_far
  by (simp add: norm_val_def charIdx_def char_at_def chars_def)

text \<open>
  Claim C4. For two cells evaluated against the same blobs (the same tick), a strictly
  greater field sum gives a glyph index that is greater or equal.
\<close>

theorem glyph_index_monotone:
  "sumField bs bx by < sumField bs ax ay \<Longrightarrow>
   charIdx (sumField bs bx by) \<le> charIdx (sumField bs ax ay)"
  by (rule charIdx_mono) simp

theorem glyph_index_monotone_witness:
  "sumField [scenario_blob 0 0 0 0] 110 28 < sumField [scenario_blob 0 0 0 0] 80 28 \<and>
   charIdx (sumField [scenario_blob 0 0 0 0] 110 28) \<le> charIdx (sumField [scenario_blob 0 0 0 0] 80 28) \<and>
   charIdx (sumField [scenario_blob 0 0 0 0] 110 28) = 0 \<and>
   charIdx (sumField [scenario_blob 0 0 0 0] 80 28) = 18"
proof -
  have h: "sumField [scenario_blob 0 0 0 0] 110 28 < sumField [scenario_blob 0 0 0 0] 80 28"
    by (simp add: scenario_centre scenario_far)
  have "charIdx (sumField [scenario_blob 0 0 0 0] 110 28) = 0"
    by (simp add: scenario_far charIdx_def norm_val_def)
  moreover have "charIdx (sumField [scenario_blob 0 0 0 0] 80 28) = 18"
    by (simp add: scenario_centre charIdx_def norm_val_def length_chars)
  ultimately show ?thesis
    using h glyph_index_monotone [OF h] by simp
qed

subsection \<open>The blobs after a tick\<close>

lemma update_blob_fields:
  "blob_x (update_blob t b) = 80 + sin (t * speed b + offset b) * 56 + cos (t * 0.2 * speed b) * 15"
  "blob_y (update_blob t b) = 28 + cos (t * speed b * 0.8 + offset b) * 19.6 + sin (t * 0.3 * speed b) * 8"
  "radius (update_blob t b) = 9 + sin (t * 3 + offset b) * 3"
  "speed (update_blob t b) = speed b"
  "offset (update_blob t b) = offset b"
  "kx (update_blob t b) = kx b"
  "ky (update_blob t b) = ky b"
  by (simp_all add: update_blob_def Let_def width_def height_def)

lemma update_blob_x_bounds: "9 \<le> blob_x (update_blob t b) \<and> blob_x (update_blob t b) \<le> 151"
proof -
  have "- 1 \<le> sin (t * speed b + offset b)" "sin (t * speed b + offset b) \<le> 1"
       "- 1 \<le> cos (t * 0.2 * speed b)" "cos (t * 0.2 * speed b) \<le> 1"
    by simp_all
  then show ?thesis unfolding update_blob_fields by linarith
qed

lemma update_blob_y_bounds: "0.4 \<le> blob_y (update_blob t b) \<and> blob_y (update_blob t b) \<le> 55.6"
proof -
  have "- 1 \<le> cos (t * speed b * 0.8 + offset b)" "cos (t * speed b * 0.8 + offset b) \<le> 1"
       "- 1 \<le> sin (t * 0.3 * speed b)" "sin (t * 0.3 * speed b) \<le> 1"
    by simp_all
  then show ?thesis unfolding update_blob_fields by linarith
qed

lemma update_blob_radius_bounds: "6 \<le> radius (update_blob t b) \<and> radius (update_blob t b) \<le> 12"
proof -
  have "- 1 \<le> sin (t * 3 + offset b)" "sin (t * 3 + offset b) \<le> 1"
    by simp_all
  then show ?thesis unfolding update_blob_fields by linarith
qed

text \<open>
  Claim C6. After any tick, from any state, every blob's position lies in
  \<open>[0, width) \<times> [0, height)\<close>.
\<close>

theorem blob_position_in_grid:
  "i < length (blobs s) \<Longrightarrow>
   0 \<le> blob_x (blobs (renderFrame s) ! i) \<and> blob_x (blobs (renderFrame s) ! i) < real width \<and>
   0 \<le> blob_y (blobs (renderFrame s) ! i) \<and> blob_y (blobs (renderFrame s) ! i) < real height"
  using update_blob_x_bounds [of "time s + 0.005" "blobs s ! i"]
        update_blob_y_bounds [of "time s + 0.005" "blobs s ! i"]
  by (simp add: renderFrame_fields width_def height_def)

lemma length_blobs_demo: "length (blobs demo) = 18"
  by (simp add: demo_def start_def Let_def numBlobs_def)

theorem blob_position_in_grid_witness:
  "0 < length (blobs demo) \<and>
   0 \<le> blob_x (blobs (renderFrame demo) ! 0) \<and> blob_x (blobs (renderFrame demo) ! 0) < 160 \<and>
   0 \<le> blob_y (blobs (renderFrame demo) ! 0) \<and> blob_y (blobs (renderFrame demo) ! 0) < 56"
proof -
  have h: "0 < length (blobs demo)" by (simp add: length_blobs_demo)
  show ?thesis using h blob_position_in_grid [OF h] by (simp add: width_def height_def)
qed

text \<open>
  Claim C8. After any tick, every blob's radius is \<open>9 + 3 sin (3 time + offset)\<close> for the
  advanced clock, lies between 6 and 12, and so is positive.
\<close>

theorem radius_stays_positive:
  "i < length (blobs s) \<Longrightarrow>
   radius (blobs (renderFrame s) ! i) = 9 + sin (time (renderFrame s) * 3 + offset (blobs s ! i)) * 3 \<and>
   6 \<le> radius (blobs (renderFrame s) ! i) \<and> radius (blobs (renderFrame s) ! i) \<le> 12 \<and>
   0 < radius (blobs (renderFrame s) ! i)"
  using update_blob_radius_bounds [of "time s + 0.005" "blobs s ! i"]
  by (simp add: renderFrame_fields update_blob_fields)

theorem radius_stays_positive_witness:
  "0 < length (blobs demo) \<and>
   6 \<le> radius (blobs (renderFrame demo) ! 0) \<and> radius (blobs (renderFrame demo) ! 0) \<le> 12"
proof -
  have h: "0 < length (blobs demo)" by (simp add: length_blobs_demo)
  show ?thesis using h radius_stays_positive [OF h] by simp
qed

text \<open>
  Claim C7. The clock starts at zero; a tick first advances it by 0.005 and then gives
  every blob the position that the closed form prescribes for the advanced clock and
  the blob's own speed and offset, which the tick leaves as they are. No other blob and
  no earlier position occurs in the closed form.
\<close>

theorem tick_closed_form:
  "time (start rnd el k) = 0 \<and>
   time (renderFrame s) = time s + 0.005 \<and>
   length (blobs (renderFrame s)) = length (blobs s) \<and>
   (\<forall>i<length (blobs s).
      blob_x (blobs (renderFrame s) ! i) =
        80 + sin (time (renderFrame s) * speed (blobs s ! i) + offset (blobs s ! i)) * 56
           + cos (time (renderFrame s) * 0.2 * speed (blobs s ! i)) * 15 \<and>
      blob_y (blobs (renderFrame s) ! i) =
        28 + cos (time (renderFrame s) * speed (blobs s ! i) * 0.8 + offset (blobs s ! i)) * 19.6
           + sin (time (renderFrame s) * 0.3 * speed (blobs s ! i)) * 8 \<and>
      speed (blobs (renderFrame s) ! i) = speed (blobs s ! i) \<and>
      offset (blobs (renderFrame s) ! i) = offset (blobs s ! i))"
  by (simp add: renderFrame_fields update_blob_fields start_def Let_def)

lemma demo_blob0: "speed (blobs demo ! 0) = 0.4 \<and> offset (blobs demo ! 0) = 50 \<and> time demo = 0"
  by (simp add: demo_def start_def Let_def numBlobs_def mk_blob_def demo_rnd_def)

theorem tick_closed_form_witness:
  "0 < length (blobs demo) \<and>
   time demo = 0 \<and> speed (blobs demo ! 0) = 0.4 \<and> offset (blobs demo ! 0) = 50 \<and>
   time (renderFrame demo) = time demo + 0.005 \<and>
   blob_x (blobs (renderFrame demo) ! 0) =
     80 + sin (time (renderFrame demo) * speed (blobs demo ! 0) + offset (blobs demo ! 0)) * 56
        + cos (time (renderFrame demo) * 0.2 * speed (blobs demo ! 0)) * 15 \<and>
   blob_y (blobs (renderFrame demo) ! 0) =
     28 + cos (time (renderFrame demo) * speed (blobs demo ! 0) * 0.8 + offset (blobs demo ! 0)) * 19.6
        + sin (time (renderFrame demo) * 0.3 * speed (blobs demo ! 0)) * 8"
proof -
  have h: "0 < length (blobs demo)" by (simp add: length_blobs_demo)
  show ?thesis
    using h tick_closed_form [of demo_rnd "Some []" 1 demo] demo_blob0 by blast
qed

subsection \<open>The buffer and the frame after a tick\<close>

text \<open>
  Claim C10. The clamped intensity lies in \<open>[0, 1]\<close>, the glyph index lies in
  \<open>[0, length chars - 1]\<close>, so indexing the ramp gives a character and never
  \<^verbatim>\<open>undefined\<close>; and after any tick every one of the \<open>width \<times> height\<close> slots of
  the buffer holds the glyph of its cell.
\<close>

theorem every_cell_gets_a_glyph:
  "0 \<le> norm_val v \<and> norm_val v \<le> 1 \<and>
   0 \<le> charIdx v \<and> charIdx v \<le> int (length chars) - 1 \<and>
   char_at chars (charIdx v) = Some (chars ! nat (charIdx v)) \<and>
   (\<forall>j<width * height.
      js_get (buffer (renderFrame s)) j =
        char_at chars (charIdx (sumField (blobs (renderFrame s)) (j mod width) (j div width))) \<and>
      js_get (buffer (renderFrame s)) j \<noteq> None)"
  using norm_val_bounds [of v] charIdx_bounds [of v]
  by (simp add: char_at_charIdx length_chars renderFrame_buffer renderFrame_fields glyph_def)

theorem every_cell_gets_a_glyph_witness:
  "0 < width * height \<and>
   0 \<le> charIdx 2 \<and> charIdx 2 \<le> 18 \<and>
   char_at chars (charIdx 2) = Some (CHR ''='') \<and>
   js_get (buffer demo) 0 = None \<and>
   js_get (buffer (renderFrame demo)) 0 \<noteq> None"
proof -
  have h: "0 < width * height" by (simp add: width_def height_def)
  have c: "charIdx 2 = 13" by (simp add: charIdx_def norm_val_def length_chars)
  have g: "char_at chars (charIdx 2) = Some (CHR ''='')"
    unfolding c by (simp add: char_at_def chars_def)
  have b: "js_get (buffer demo) 0 = None"
    by (simp add: demo_def start_def Let_def js_get_def)
  have r: "js_get (buffer (renderFrame demo)) 0 \<noteq> None"
    using h every_cell_gets_a_glyph [of 2 demo] by blast
  show ?thesis
    using h c g b r by simp
qed

lemma preRef_demo: "preRef demo = Some []"
  by (simp add: demo_def start_def Let_def)

lemma last_concat_rows:
  "xs \<noteq> [] \<Longrightarrow> last (concat (map (\<lambda>x. f x @ [c]) xs)) = c"
  by (induction xs) simp_all

lemma last_frame_text: "last (frame_text bs) = newline"
  unfolding frame_text_def by (rule last_concat_rows) (simp add: height_def)

text \<open>
  Claim C2, as amended. On every tick with the element attached, the text given to the
  element is the frame of the updated blobs: it holds exactly \<open>width \<times> height\<close> glyphs
  and exactly \<open>height\<close> line breaks, one after every row, the last row included (the
  claim says \<open>height - 1\<close>, one between consecutive rows).
\<close>

theorem frame_has_height_line_breaks:
  "preRef s \<noteq> None \<Longrightarrow>
   preRef (renderFrame s) = Some (frame_text (blobs (renderFrame s))) \<and>
   glyph_count (frame_text (blobs (renderFrame s))) = width * height \<and>
   line_breaks (frame_text (blobs (renderFrame s))) = height \<and>
   length (frame_text (blobs (renderFrame s))) = width * height + height \<and>
   last (frame_text (blobs (renderFrame s))) = newline"
  by (simp add: renderFrame_fields glyph_count_frame_text line_breaks_frame_text length_frame_text
      last_frame_text)

theorem frame_has_height_line_breaks_witness:
  "preRef demo \<noteq> None \<and>
   map_option glyph_count (preRef (renderFrame demo)) = Some 8960 \<and>
   map_option line_breaks (preRef (renderFrame demo)) = Some 56"
proof -
  have h: "preRef demo \<noteq> None" by (simp add: preRef_demo)
  show ?thesis
    using h frame_has_height_line_breaks [OF h] by (simp add: width_def height_def)
qed

text \<open>
  The first frame of the concrete start state has 56 line breaks, not \<open>height - 1 = 55\<close>.
\<close>

theorem frame_line_breaks_counterexample:
  "map_option line_breaks (preRef (renderFrame demo)) = Some 56 \<and>
   map_option line_breaks (preRef (renderFrame demo)) \<noteq> Some (height - 1)"
  by (simp add: renderFrame_fields preRef_demo line_breaks_frame_text height_def)

subsection \<open>Determinism\<close>

lemma contribution_update_blob:
  "speed b1 = speed b2 \<Longrightarrow> offset b1 = offset b2 \<Longrightarrow>
   contribution (update_blob t b1) cx cy = contribution (update_blob t b2) cx cy"
  by (simp add: contribution_def update_blob_fields)

lemma foldl_contribution_update:
  "map speed bs1 = map speed bs2 \<Longrightarrow> map offset bs1 = map offset bs2 \<Longrightarrow>
   foldl (\<lambda>acc b. acc + contribution b cx cy) acc (map (update_blob t) bs1) =
   foldl (\<lambda>acc b. acc + contribution b cx cy) acc (map (update_blob t) bs2)"
proof (induction bs1 arbitrary: bs2 acc)
  case Nil
  then show ?case by simp
next
  case (Cons b bs1)
  then obtain c cs where bs2: "bs2 = c # cs" by (cases bs2) auto
  with Cons.prems have "speed b = speed c" "offset b = offset c"
    "map speed bs1 = map speed cs" "map offset bs1 = map offset cs" by simp_all
  then show ?case
    unfolding bs2 by (simp add: contribution_update_blob [of b c] Cons.IH [of cs])
qed

lemma sumField_update:
  "map speed bs1 = map speed bs2 \<Longrightarrow> map offset bs1 = map offset bs2 \<Longrightarrow>
   sumField (map (update_blob t) bs1) cx cy = sumField (map (update_blob t) bs2) cx cy"
  unfolding sumField_def by (rule foldl_contribution_update)

lemma frame_text_update:
  "map speed bs1 = map speed bs2 \<Longrightarrow> map offset bs1 = map offset bs2 \<Longrightarrow>
   frame_text (map (update_blob t) bs1) = frame_text (map (update_blob t) bs2)"
  unfolding frame_text_def glyph_def by (simp add: sumField_update [of bs1 bs2])

lemma map_speed_update: "map speed (map (update_blob t) bs) = map speed bs"
  by (induction bs) (simp_all add: update_blob_fields)

lemma map_offset_update: "map offset (map (update_blob t) bs) = map offset bs"
  by (induction bs) (simp_all add: update_blob_fields)

lemma frames_agree:
  "time s1 = time s2 \<Longrightarrow>
   map speed (blobs s1) = map speed (blobs s2) \<Longrightarrow>
   map offset (blobs s1) = map offset (blobs s2) \<Longrightarrow>
   (preRef s1 = None) = (preRef s2 = None) \<Longrightarrow>
   frames n s1 = frames n s2"
proof (induction n arbitrary: s1 s2)
  case 0
  show ?case by simp
next
  case (Suc n)
  have p: "preRef (renderFrame s1) = preRef (renderFrame s2)"
    using Suc.prems
    by (simp add: renderFrame_fields frame_text_update [of "blobs s1" "blobs s2"])
  have "frames n (renderFrame s1) = frames n (renderFrame s2)"
  proof (rule Suc.IH)
    show "time (renderFrame s1) = time (renderFrame s2)"
      using Suc.prems by (simp add: renderFrame_fields)
    show "map speed (blobs (renderFrame s1)) = map speed (blobs (renderFrame s2))"
      unfolding renderFrame_fields map_speed_update using Suc.prems by simp
    show "map offset (blobs (renderFrame s1)) = map offset (blobs (renderFrame s2))"
      unfolding renderFrame_fields map_offset_update using Suc.prems by simp
    show "(preRef (renderFrame s1) = None) = (preRef (renderFrame s2) = None)"
      using p by simp
  qed
  with p show ?case by simp
qed

text \<open>
  Claim C5. Two runs that start with the same clock and the same speeds and offsets of
  their blobs (and both with or both without an attached element) present the same
  sequence of frames over any number of ticks, whatever else differs between them:
  positions, radii and the unused draws \<open>kx\<close>, \<open>ky\<close>, the buffer, the host, the text
  the element held before.
\<close>

theorem frames_deterministic:
  "time s1 = time s2 \<Longrightarrow>
   map speed (blobs s1) = map speed (blobs s2) \<Longrightarrow>
   map offset (blobs s1) = map offset (blobs s2) \<Longrightarrow>
   (preRef s1 = None) = (preRef s2 = None) \<Longrightarrow>
   frames n s1 = frames n s2"
  by (rule frames_agree)

lemma demo2_agrees:
  "time demo = time demo2"
  "map speed (blobs demo) = map speed (blobs demo2)"
  "map offset (blobs demo) = map offset (blobs demo2)"
  "(preRef demo = None) = (preRef demo2 = None)"
  by (simp_all add: demo2_def preRef_demo comp_def)

theorem frames_deterministic_witness:
  "time demo = time demo2 \<and>
   map speed (blobs demo) = map speed (blobs demo2) \<and>
   map offset (blobs demo) = map offset (blobs demo2) \<and>
   (preRef demo = None) = (preRef demo2 = None) \<and>
   buffer demo \<noteq> buffer demo2 \<and> preRef demo \<noteq> preRef demo2 \<and>
   map radius (blobs demo) \<noteq> map radius (blobs demo2) \<and>
   frames 3 demo = frames 3 demo2"
proof -
  have d: "buffer demo \<noteq> buffer demo2" "preRef demo \<noteq> preRef demo2"
    by (simp_all add: demo2_def demo_def start_def Let_def width_def height_def)
  have r: "map radius (blobs demo) \<noteq> map radius (blobs demo2)"
    by (simp add: demo2_def demo_def start_def Let_def numBlobs_def comp_def upt_rec
        mk_blob_def demo_rnd_def)
  show ?thesis
    using d r demo2_agrees frames_deterministic [OF demo2_agrees, of 3] by simp
qed

subsection \<open>Frames of the host and the cleanup\<close>

lemma run_frame_empty: "callbacks (hst s) = [] \<Longrightarrow> run_frame s = s"
  by (simp add: run_frame_def)

lemma run_frame_single:
  assumes "callbacks (hst s) = [c]"
  shows "callbacks (hst (run_frame s)) = [next_handle (hst s)]"
    and "next_handle (hst (run_frame s)) = next_handle (hst s) + 1"
    and "animationId (run_frame s) = animationId s"
    and "buffer_writes (run_frame s) = buffer_writes s + width * height"
    and "target_writes (run_frame s) = (if preRef s = None then target_writes s else target_writes s + 1)"
    and "(preRef (run_frame s) = None) = (preRef s = None)"
  using assms
  by (simp_all add: run_frame_def renderFrame_fields requestAnimationFrame_def)

lemma stop_fields:
  "callbacks (hst (stop s)) = removeAll (animationId s) (callbacks (hst s))"
  "next_handle (hst (stop s)) = next_handle (hst s)"
  "animationId (stop s) = animationId s"
  "buffer_writes (stop s) = buffer_writes s"
  "target_writes (stop s) = target_writes s"
  "preRef (stop s) = preRef s"
  by (simp_all add: stop_def cancelAnimationFrame_def)

lemma start_fields:
  "callbacks (hst (start rnd el k)) = [k]"
  "next_handle (hst (start rnd el k)) = k + 1"
  "animationId (start rnd el k) = k"
  "buffer_writes (start rnd el k) = 0"
  "target_writes (start rnd el k) = 0"
  "preRef (start rnd el k) = el"
  by (simp_all add: start_def Let_def requestAnimationFrame_def)

text \<open>
  The same for two runs of the effect on attached elements: the frames depend on the
  random draws for the speeds and offsets only.
\<close>

lemma start_blobs_agree:
  assumes "\<And>i. i < numBlobs \<Longrightarrow>
             rnd1 (5 * i + 2) = rnd2 (5 * i + 2) \<and> rnd1 (5 * i + 3) = rnd2 (5 * i + 3)"
  shows "map speed (blobs (start rnd1 el1 k1)) = map speed (blobs (start rnd2 el2 k2))"
    and "map offset (blobs (start rnd1 el1 k1)) = map offset (blobs (start rnd2 el2 k2))"
  using assms by (simp_all add: start_def Let_def mk_blob_def)

lemma frames_of_start:
  assumes "\<And>i. i < numBlobs \<Longrightarrow>
             rnd1 (5 * i + 2) = rnd2 (5 * i + 2) \<and> rnd1 (5 * i + 3) = rnd2 (5 * i + 3)"
  shows "frames n (start rnd1 (Some t1) k1) = frames n (start rnd2 (Some t2) k2)"
proof (rule frames_agree)
  show "time (start rnd1 (Some t1) k1) = time (start rnd2 (Some t2) k2)"
    by (simp add: start_def Let_def)
  show "map speed (blobs (start rnd1 (Some t1) k1)) = map speed (blobs (start rnd2 (Some t2) k2))"
    using assms by (rule start_blobs_agree)
  show "map offset (blobs (start rnd1 (Some t1) k1)) = map offset (blobs (start rnd2 (Some t2) k2))"
    using assms by (rule start_blobs_agree)
  show "(preRef (start rnd1 (Some t1) k1) = None) = (preRef (start rnd2 (Some t2) k2) = None)"
    by (simp add: start_fields)
qed

lemma run_append: "run (es @ fs) s = run fs (run es s)"
  by (induction es arbitrary: s) simp_all

text \<open>Once a frame has run, the pending entry is not the one the cleanup cancels.\<close>

lemma run_untracked:
  "callbacks (hst s) = [c] \<Longrightarrow> animationId s < c \<Longrightarrow> c < next_handle (hst s) \<Longrightarrow>
   buffer_writes (run evs s) = buffer_writes s + count_list evs Frame * (width * height) \<and>
   callbacks (hst (run evs s)) \<noteq> []"
proof (induction evs arbitrary: s c)
  case Nil
  then show ?case by simp
next
  case (Cons e evs)
  show ?case
  proof (cases e)
    case Frame
    have "buffer_writes (run evs (run_frame s)) =
            buffer_writes (run_frame s) + count_list evs Frame * (width * height) \<and>
          callbacks (hst (run evs (run_frame s))) \<noteq> []"
    proof (rule Cons.IH)
      show "callbacks (hst (run_frame s)) = [next_handle (hst s)]"
        using Cons.prems(1) by (rule run_frame_single)
      show "animationId (run_frame s) < next_handle (hst s)"
        using Cons.prems by (simp add: run_frame_single)
      show "next_handle (hst s) < next_handle (hst (run_frame s))"
        using Cons.prems by (simp add: run_frame_single)
    qed
    then show ?thesis
      using Frame Cons.prems(1) by (simp add: run_frame_single)
  next
    case Stop
    have "buffer_writes (run evs (stop s)) =
            buffer_writes (stop s) + count_list evs Frame * (width * height) \<and>
          callbacks (hst (run evs (stop s))) \<noteq> []"
    proof (rule Cons.IH)
      show "callbacks (hst (stop s)) = [c]"
        using Cons.prems by (simp add: stop_fields)
      show "animationId (stop s) < c"
        using Cons.prems by (simp add: stop_fields)
      show "c < next_handle (hst (stop s))"
        using Cons.prems by (simp add: stop_fields)
    qed
    then show ?thesis using Stop by (simp add: stop_fields)
  next
    case Detach
    have "buffer_writes (run evs (s\<lparr>preRef := None\<rparr>)) =
            buffer_writes (s\<lparr>preRef := None\<rparr>) + count_list evs Frame * (width * height) \<and>
          callbacks (hst (run evs (s\<lparr>preRef := None\<rparr>))) \<noteq> []"
      using Cons.prems by (intro Cons.IH [of _ c]) simp_all
    then show ?thesis using Detach by simp
  qed
qed

lemma writes_after_first_frame:
  "buffer_writes (run (Frame # evs) (start rnd el k)) = (1 + count_list evs Frame) * (width * height) \<and>
   callbacks (hst (run (Frame # evs) (start rnd el k))) \<noteq> []"
proof -
  let ?s = "run_frame (start rnd el k)"
  have c: "callbacks (hst ?s) = [k + 1]"
    using run_frame_single(1) [of "start rnd el k" k] by (simp add: start_fields)
  have a: "animationId ?s < k + 1"
    using run_frame_single(3) [of "start rnd el k" k] by (simp add: start_fields)
  have n: "k + 1 < next_handle (hst ?s)"
    using run_frame_single(2) [of "start rnd el k" k] by (simp add: start_fields)
  have b: "buffer_writes ?s = width * height"
    using run_frame_single(4) [of "start rnd el k" k] by (simp add: start_fields)
  show ?thesis
    using run_untracked [OF c a n, of evs] b by simp
qed

text \<open>When nothing is pending, nothing is ever written.\<close>

lemma run_idle:
  "callbacks (hst s) = [] \<Longrightarrow>
   buffer_writes (run evs s) = buffer_writes s \<and> target_writes (run evs s) = target_writes s"
proof (induction evs arbitrary: s)
  case Nil
  show ?case by simp
next
  case (Cons e evs)
  show ?case
  proof (cases e)
    case Frame
    then show ?thesis using Cons by (simp add: run_frame_empty)
  next
    case Stop
    have "callbacks (hst (stop s)) = []" using Cons.prems by (simp add: stop_fields)
    from Cons.IH [OF this] Stop show ?thesis by (simp add: stop_fields)
  next
    case Detach
    have "callbacks (hst (s\<lparr>preRef := None\<rparr>)) = []" using Cons.prems by simp
    from Cons.IH [OF this] Detach show ?thesis by simp
  qed
qed

lemma stop_before_first_tick:
  "buffer_writes (run (Stop # evs) (start rnd el k)) = 0 \<and>
   target_writes (run (Stop # evs) (start rnd el k)) = 0"
proof -
  have "callbacks (hst (stop (start rnd el k))) = []"
    by (simp add: stop_fields start_fields)
  from run_idle [OF this, of evs] show ?thesis
    by (simp add: stop_fields start_fields)
qed

text \<open>
  Claim C1. The cleanup cancels the handle of the first request only; the handle of the
  request that \<^verbatim>\<open>renderFrame\<close> makes at its end is not kept. On the concrete start
  state, one frame and then the cleanup leave the entry of handle 2 pending, and the
  next frame of the host writes the whole buffer again (and the element, when it is
  still attached). With the element detached before the cleanup the buffer is still
  written, the element is not.
\<close>

theorem stop_after_first_tick_keeps_writing:
  "animationId demo = 1 \<and>
   callbacks (hst (run [Frame, Stop] demo)) = [2] \<and>
   buffer_writes (run [Frame, Stop] demo) = 8960 \<and>
   buffer_writes (run [Frame, Stop, Frame] demo) = 17920 \<and>
   target_writes (run [Frame, Stop] demo) = 1 \<and>
   target_writes (run [Frame, Stop, Frame] demo) = 2 \<and>
   buffer_writes (run [Frame, Detach, Stop] demo) = 8960 \<and>
   buffer_writes (run [Frame, Detach, Stop, Frame] demo) = 17920 \<and>
   target_writes (run [Frame, Detach, Stop, Frame] demo) = 1"
proof -
  have s: "callbacks (hst demo) = [1]" "animationId demo = 1" "next_handle (hst demo) = 2"
    "preRef demo = Some []" "buffer_writes demo = 0" "target_writes demo = 0"
    by (simp_all add: demo_def start_fields)
  let ?s1 = "run_frame demo"
  have s1: "callbacks (hst ?s1) = [2]" "animationId ?s1 = 1" "next_handle (hst ?s1) = 3"
    "preRef ?s1 \<noteq> None" "buffer_writes ?s1 = 8960" "target_writes ?s1 = 1"
    using run_frame_single [OF s(1)] s by (simp_all add: width_def height_def)
  let ?s2 = "stop ?s1"
  have s2: "callbacks (hst ?s2) = [2]" "preRef ?s2 \<noteq> None" "buffer_writes ?s2 = 8960"
    "target_writes ?s2 = 1"
    using s1 by (simp_all add: stop_fields)
  let ?s3 = "run_frame ?s2"
  have s3: "buffer_writes ?s3 = 17920" "target_writes ?s3 = 2"
    using run_frame_single [OF s2(1)] s2 by (simp_all add: width_def height_def)
  let ?d = "stop (?s1\<lparr>preRef := None\<rparr>)"
  have d: "callbacks (hst ?d) = [2]" "buffer_writes ?d = 8960" "target_writes ?d = 1"
    "preRef ?d = None"
    using s1 by (simp_all add: stop_fields)
  have d3: "buffer_writes (run_frame ?d) = 17920" "target_writes (run_frame ?d) = 1"
    using run_frame_single [OF d(1)] d by (simp_all add: width_def height_def)
  show ?thesis
    using s s2 s3 d d3 by simp
qed

end
